theory Spec2Isabelle
  imports Main
begin

section \<open>Values exchanged with the host: URLs, requests, responses, errors\<close>

text \<open>
  The worker script \<^verbatim>\<open>src/pwa/service-worker.js\<close> registers three listeners
  (install, activate, fetch) and talks to three host capabilities: the network
  (\<^verbatim>\<open>fetch\<close>), the cache storage (\<^verbatim>\<open>caches\<close>) and the response constructor.
  A promise is modelled by the value it settles with: \<open>Inr v\<close> when it fulfils with
  \<open>v\<close>, \<open>Inl e\<close> when it rejects with \<open>e\<close>.
\<close>

datatype js_error = TypeError | InvalidStateError

text \<open>
  A parsed URL, as \<^verbatim>\<open>new URL(event.request.url)\<close> yields it. The fragment is left
  out: the cache never compares it.
\<close>

record parsed_url =
  scheme :: string
  host :: string
  pathname :: string
  search :: string

text \<open>A request: its URL and its method (\<^verbatim>\<open>event.request.method\<close>).\<close>

record request =
  url :: parsed_url
  req_method :: string

record response =
  status :: nat
  statusText :: string
  headers :: "(string \<times> string) list"
  body :: string

text \<open>The network: \<^verbatim>\<open>fetch(request)\<close> fulfils with a response of any status, or
  rejects (offline, DNS failure, ...).\<close>

type_synonym network = "request \<Rightarrow> js_error + response"

text \<open>\<^verbatim>\<open>response.ok\<close>: the status is in the range 200 to 299.\<close>

definition ok :: "response \<Rightarrow> bool" where
  "ok r = (200 \<le> status r \<and> status r \<le> 299)"

subsection \<open>Header names and values\<close>

definition ascii_lower :: "char \<Rightarrow> char" where
  "ascii_lower c =
     (case map_of (zip ''ABCDEFGHIJKLMNOPQRSTUVWXYZ'' ''abcdefghijklmnopqrstuvwxyz'') c of
        Some l \<Rightarrow> l
      | None \<Rightarrow> c)"

text \<open>Header names are compared without regard to ASCII case.\<close>

definition header_values :: "string \<Rightarrow> (string \<times> string) list \<Rightarrow> string list" where
  "header_values name hs =
     map snd (filter (\<lambda>(n, v). map ascii_lower n = map ascii_lower name) hs)"

definition is_ows :: "char \<Rightarrow> bool" where
  "is_ows c = (c = CHR '' '' \<or> c = CHR 0x09)"

definition trim_ows :: "string \<Rightarrow> string" where
  "trim_ows s = rev (dropWhile is_ows (rev (dropWhile is_ows s)))"

text \<open>Splitting a header value at its commas.\<close>

fun split_commas :: "string \<Rightarrow> string \<Rightarrow> string list" where
  "split_commas acc [] = [rev acc]"
| "split_commas acc (c # cs) =
     (if c = CHR '','' then rev acc # split_commas [] cs else split_commas (c # acc) cs)"

text \<open>The field values of the \<^verbatim>\<open>Vary\<close> header of a response, and whether one of
  them is \<^verbatim>\<open>*\<close>: the cache refuses to store such a response.\<close>

definition vary_values :: "response \<Rightarrow> string list" where
  "vary_values r =
     map trim_ows (concat (map (split_commas []) (header_values ''vary'' (headers r))))"

definition vary_star :: "response \<Rightarrow> bool" where
  "vary_star r = (''*'' \<in> set (vary_values r))"

subsection \<open>The response constructor and \<^verbatim>\<open>JSON.stringify\<close>\<close>

text \<open>
  \<^verbatim>\<open>new Response(body, { headers })\<close> with a string body: status 200, empty status
  text, the given headers, and a \<^verbatim>\<open>Content-Type\<close> of plain text added only when
  the headers name none.
\<close>

definition new_Response :: "string \<Rightarrow> (string \<times> string) list \<Rightarrow> response" where
  "new_Response b hs =
     \<lparr>status = 200, statusText = [],
      headers = (if header_values ''content-type'' hs = []
                 then hs @ [(''Content-Type'', ''text/plain;charset=UTF-8'')] else hs),
      body = b\<rparr>"

definition hex_digit :: "nat \<Rightarrow> char" where
  "hex_digit n = ''0123456789abcdef'' ! (n mod 16)"

text \<open>The quoting of one character of a JSON string: the quote, the backslash and
  the control characters are escaped.\<close>

definition json_quote_char :: "char \<Rightarrow> string" where
  "json_quote_char c =
     (if c = CHR 0x22 then [CHR 0x5C, CHR 0x22]
      else if c = CHR 0x5C then [CHR 0x5C, CHR 0x5C]
      else if c = CHR 0x08 then [CHR 0x5C, CHR ''b'']
      else if c = CHR 0x0C then [CHR 0x5C, CHR ''f'']
      else if c = CHR 0x0A then [CHR 0x5C, CHR ''n'']
      else if c = CHR 0x0D then [CHR 0x5C, CHR ''r'']
      else if c = CHR 0x09 then [CHR 0x5C, CHR ''t'']
      else if (of_char c :: nat) < 32
        then [CHR 0x5C, CHR ''u'', CHR ''0'', CHR ''0'',
              hex_digit ((of_char c :: nat) div 16), hex_digit (of_char c :: nat)]
      else [c])"

definition json_quote :: "string \<Rightarrow> string" where
  "json_quote s = [CHR 0x22] @ concat (map json_quote_char s) @ [CHR 0x22]"

fun json_members :: "(string \<times> string) list \<Rightarrow> string" where
  "json_members [] = []"
| "json_members [(k, v)] = json_quote k @ '':'' @ json_quote v"
| "json_members ((k, v) # kvs) = json_quote k @ '':'' @ json_quote v @ '','' @ json_members kvs"

text \<open>\<^verbatim>\<open>JSON.stringify\<close> of an object whose properties are ASCII strings, given
  as the list of its properties in order.\<close>

definition JSON_stringify :: "(string \<times> string) list \<Rightarrow> string" where
  "JSON_stringify kvs = ''{'' @ json_members kvs @ ''}''"

section \<open>The cache storage of the host\<close>

text \<open>
  A cache is its request/response list, in insertion order; the cache storage is the
  list of named caches in creation order (\<^verbatim>\<open>caches.keys()\<close> enumerates it so).
  Request headers are not part of the model, so matching by the headers a stored
  response's \<^verbatim>\<open>Vary\<close> lists is not modelled; storage failures of the device (quota,
  I/O) are not modelled either.
\<close>

type_synonym cache = "(request \<times> response) list"
type_synonym cache_storage = "(string \<times> cache) list"

text \<open>A query matches a stored request when the query is a GET and the URLs are
  equal (default match options).\<close>

definition request_matches :: "request \<Rightarrow> request \<Rightarrow> bool" where
  "request_matches q stored = (req_method q = ''GET'' \<and> url q = url stored)"

definition query_cache :: "cache \<Rightarrow> request \<Rightarrow> cache" where
  "query_cache c q = filter (\<lambda>(rq, rs). request_matches q rq) c"

text \<open>\<^verbatim>\<open>cache.match(request)\<close>: the first matching entry's response, or undefined.\<close>

definition cache_match :: "cache \<Rightarrow> request \<Rightarrow> response option" where
  "cache_match c q = (case query_cache c q of [] \<Rightarrow> None | (rq, rs) # _ \<Rightarrow> Some rs)"

text \<open>\<^verbatim>\<open>caches.match(request)\<close>: the caches are searched in creation order and the
  first hit is the answer.\<close>

fun caches_match :: "cache_storage \<Rightarrow> request \<Rightarrow> response option" where
  "caches_match [] q = None"
| "caches_match ((name, c) # cs) q =
     (case cache_match c q of Some r \<Rightarrow> Some r | None \<Rightarrow> caches_match cs q)"

definition caches_keys :: "cache_storage \<Rightarrow> string list" where
  "caches_keys cs = map fst cs"

text \<open>\<^verbatim>\<open>caches.open(name)\<close> creates an empty cache under the name when there is none.\<close>

definition caches_open :: "string \<Rightarrow> cache_storage \<Rightarrow> cache_storage" where
  "caches_open name cs = (if name \<in> set (caches_keys cs) then cs else cs @ [(name, [])])"

definition cache_of :: "cache_storage \<Rightarrow> string \<Rightarrow> cache" where
  "cache_of cs name = (case map_of cs name of Some c \<Rightarrow> c | None \<Rightarrow> [])"

text \<open>Writing back the request/response list of the cache opened under a name.\<close>

definition caches_store :: "string \<Rightarrow> cache \<Rightarrow> cache_storage \<Rightarrow> cache_storage" where
  "caches_store name c cs = map (\<lambda>(k, old). if k = name then (k, c) else (k, old)) cs"

text \<open>\<^verbatim>\<open>caches.delete(name)\<close>.\<close>

definition caches_delete :: "string \<Rightarrow> cache_storage \<Rightarrow> cache_storage" where
  "caches_delete name cs = filter (\<lambda>(k, c). k \<noteq> name) cs"

definition http_scheme :: "request \<Rightarrow> bool" where
  "http_scheme rq = (scheme (url rq) = ''http'' \<or> scheme (url rq) = ''https'')"

text \<open>
  The batch of put operations behind \<^verbatim>\<open>cache.put\<close> and \<^verbatim>\<open>cache.addAll\<close>: an
  operation whose request matches an item added earlier in the same batch fails the
  batch; otherwise the entries its request matches are removed and the new entry is
  appended. A failed batch leaves the cache as it was (the caller keeps the old list).
\<close>

fun batch_put :: "(request \<times> response) list \<Rightarrow> cache \<Rightarrow> cache \<Rightarrow> js_error + cache" where
  "batch_put [] added c = Inr c"
| "batch_put ((rq, rs) # ops) added c =
     (if query_cache added rq \<noteq> [] then Inl InvalidStateError
      else if \<not> http_scheme rq \<or> req_method rq \<noteq> ''GET'' then Inl TypeError
      else batch_put ops (added @ [(rq, rs)])
             (filter (\<lambda>(rq', rs'). \<not> request_matches rq rq') c @ [(rq, rs)]))"

text \<open>\<^verbatim>\<open>cache.put(request, response)\<close> rejects a request that is not an http(s)
  GET, a response of status 206 and a response that varies on \<^verbatim>\<open>*\<close>.\<close>

definition cache_put :: "cache \<Rightarrow> request \<Rightarrow> response \<Rightarrow> js_error + cache" where
  "cache_put c rq rs =
     (if \<not> http_scheme rq \<or> req_method rq \<noteq> ''GET'' then Inl TypeError
      else if status rs = 206 then Inl TypeError
      else if vary_star rs then Inl TypeError
      else batch_put [(rq, rs)] [] c)"

text \<open>
  \<^verbatim>\<open>cache.addAll(urls)\<close>: every URL is resolved against the worker's location and
  fetched with GET; a fetch that rejects, a status outside 200..299, a status 206 or a
  \<^verbatim>\<open>Vary: *\<close> rejects the whole call, and only when every response is in are they
  put in one batch.
\<close>

definition asset_request :: "parsed_url \<Rightarrow> string \<Rightarrow> request" where
  "asset_request base path = \<lparr>url = base\<lparr>pathname := path, search := []\<rparr>, req_method = ''GET''\<rparr>"

fun fetch_all :: "network \<Rightarrow> request list \<Rightarrow> js_error + (request \<times> response) list" where
  "fetch_all net [] = Inr []"
| "fetch_all net (rq # rqs) =
     (if \<not> http_scheme rq then Inl TypeError
      else case net rq of
        Inl e \<Rightarrow> Inl TypeError
      | Inr rs \<Rightarrow>
          if \<not> ok rs \<or> status rs = 206 \<or> vary_star rs then Inl TypeError
          else (case fetch_all net rqs of
                  Inl e \<Rightarrow> Inl e
                | Inr done \<Rightarrow> Inr ((rq, rs) # done)))"

definition cache_addAll :: "network \<Rightarrow> parsed_url \<Rightarrow> string list \<Rightarrow> cache \<Rightarrow> js_error + cache" where
  "cache_addAll net base paths c =
     (case fetch_all net (map (asset_request base) paths) of
        Inl e \<Rightarrow> Inl e
      | Inr ops \<Rightarrow> batch_put ops [] c)"

section \<open>The worker\<close>

definition CACHE_NAME :: string where
  "CACHE_NAME = ''atc-v1''"

definition ASSETS :: "string list" where
  "ASSETS = [''/'', ''/index.html'', ''/manifest.json'',
             ''/icons/icon-192.png'', ''/icons/icon-512.png'']"

text \<open>\<^verbatim>\<open>String.prototype.startsWith\<close>.\<close>

fun startsWith :: "string \<Rightarrow> string \<Rightarrow> bool" where
  "startsWith s [] = True"
| "startsWith [] (p # ps) = False"
| "startsWith (c # cs) (p # ps) = (c = p \<and> startsWith cs ps)"

subsection \<open>Install: cache the core assets\<close>

text \<open>
  What a lifecycle listener leaves behind: the settlement of the promise it passed to
  \<^verbatim>\<open>event.waitUntil\<close>, whether it called \<^verbatim>\<open>self.skipWaiting()\<close> or
  \<^verbatim>\<open>self.clients.claim()\<close>, and the cache storage afterwards.
\<close>

record lifecycle_result =
  waited :: "js_error + unit"
  signalled :: bool
  caches_after :: cache_storage

definition install :: "network \<Rightarrow> parsed_url \<Rightarrow> cache_storage \<Rightarrow> lifecycle_result" where
  "install net base cs =
     (let opened = caches_open CACHE_NAME cs in
      case cache_addAll net base ASSETS (cache_of opened CACHE_NAME) of
        Inl e \<Rightarrow> \<lparr>waited = Inl e, signalled = True, caches_after = opened\<rparr>
      | Inr c \<Rightarrow> \<lparr>waited = Inr (), signalled = True,
                  caches_after = caches_store CACHE_NAME c opened\<rparr>)"

subsection \<open>Activate: clean old caches\<close>

text \<open>
  Every store whose name differs from \<^verbatim>\<open>CACHE_NAME\<close> is deleted. A deletion is taken
  to be carried out, like every storage operation of the model, so the promise given to
  \<^verbatim>\<open>event.waitUntil\<close> fulfils.
\<close>

definition activate :: "cache_storage \<Rightarrow> lifecycle_result" where
  "activate cs =
     \<lparr>waited = Inr (), signalled = True,
      caches_after = fold caches_delete (filter (\<lambda>k. k \<noteq> CACHE_NAME) (caches_keys cs)) cs\<rparr>"

subsection \<open>Fetch: network first for API calls, cache first for static assets\<close>

text \<open>
  A write the fetch listener starts and does not await:
  \<^verbatim>\<open>caches.open(name).then((cache) => cache.put(request, clone))\<close>.
\<close>

datatype task = OpenPut string request response

text \<open>
  What handling one request yields: the settlement of the promise given to
  \<^verbatim>\<open>event.respondWith\<close>, the network calls made, and the writes left running in the
  background when that promise settles.
\<close>

record handled =
  responded :: "js_error + response"
  net_calls :: "request list"
  background :: "task list"

definition offline_response :: response where
  "offline_response =
     new_Response (JSON_stringify [(''error'', ''You appear to be offline.'')])
       [(''Content-Type'', ''application/json'')]"

definition fetch_listener :: "network \<Rightarrow> cache_storage \<Rightarrow> request \<Rightarrow> handled" where
  "fetch_listener net cs rq =
     (if startsWith (pathname (url rq)) ''/api/'' then
        \<lparr>responded = (case net rq of Inl e \<Rightarrow> Inr offline_response | Inr r \<Rightarrow> Inr r),
         net_calls = [rq], background = []\<rparr>
      else case caches_match cs rq of
        Some cached \<Rightarrow> \<lparr>responded = Inr cached, net_calls = [], background = []\<rparr>
      | None \<Rightarrow>
          (case net rq of
             Inl e \<Rightarrow> \<lparr>responded = Inl e, net_calls = [rq], background = []\<rparr>
           | Inr r \<Rightarrow>
               \<lparr>responded = Inr r, net_calls = [rq],
                background = (if ok r \<and> req_method rq = ''GET''
                              then [OpenPut CACHE_NAME rq r] else [])\<rparr>))"

text \<open>Running a background write to its end: the cache is opened (created when
  absent) and the entry put; a rejected put is dropped, nobody awaits it.\<close>

fun run_task :: "task \<Rightarrow> cache_storage \<Rightarrow> cache_storage" where
  "run_task (OpenPut name rq rs) cs =
     (let opened = caches_open name cs in
      case cache_put (cache_of opened name) rq rs of
        Inl e \<Rightarrow> opened
      | Inr c \<Rightarrow> caches_store name c opened)"

definition settle :: "task list \<Rightarrow> cache_storage \<Rightarrow> cache_storage" where
  "settle ts cs = fold run_task ts cs"

subsection \<open>The host's update of a registration\<close>

text \<open>
  Modelled from the spec: the host's lifecycle driver is not part of the worker
  script. The spec describes it: the setup is not complete, and the new version not
  eligible to take control, until the work handed to the "hold open until done"
  mechanism succeeds; when it fails the new version does not activate and the
  previously active version, if any, continues serving; a version that signalled
  readiness takes control at once, and otherwise waits while another version is active.
  A registration records the active and the waiting version.
\<close>

record 'v registration =
  active :: "'v option"
  waiting :: "'v option"

definition host_update ::
  "network \<Rightarrow> parsed_url \<Rightarrow> 'v \<Rightarrow> 'v registration \<Rightarrow> cache_storage
     \<Rightarrow> 'v registration \<times> cache_storage" where
  "host_update net base new reg cs =
     (let i = install net base cs in
      case waited i of
        Inl e \<Rightarrow> (reg, caches_after i)
      | Inr u \<Rightarrow>
          if signalled i \<or> active reg = None
          then (reg\<lparr>active := Some new, waiting := None\<rparr>,
                caches_after (activate (caches_after i)))
          else (reg\<lparr>waiting := Some new\<rparr>, caches_after i))"

section \<open>Example inputs\<close>

definition site :: parsed_url where
  "site = \<lparr>scheme = ''https'', host = ''example.com'', pathname = ''/'', search = []\<rparr>"

definition get_request :: "string \<Rightarrow> request" where
  "get_request path = \<lparr>url = site\<lparr>pathname := path\<rparr>, req_method = ''GET''\<rparr>"

definition post_request :: "string \<Rightarrow> request" where
  "post_request path = \<lparr>url = site\<lparr>pathname := path\<rparr>, req_method = ''POST''\<rparr>"

definition page :: "nat \<Rightarrow> string \<Rightarrow> response" where
  "page code text =
     \<lparr>status = code, statusText = [], headers = [(''content-type'', ''text/html'')],
      body = text\<rparr>"

text \<open>A network that is down, one that answers every request with status 200 and
  the path as body, one that answers 206, one that answers 500, and one that serves
  everything but the icons.\<close>

definition net_down :: network where
  "net_down rq = Inl TypeError"

definition net_up :: network where
  "net_up rq = Inr (page 200 (pathname (url rq)))"

definition net_partial :: network where
  "net_partial rq = Inr (page 206 (pathname (url rq)))"

definition net_broken :: network where
  "net_broken rq = Inr (page 500 ''Internal Server Error'')"

definition net_no_icons :: network where
  "net_no_icons rq =
     (if startsWith (pathname (url rq)) ''/icons/'' then Inl TypeError
      else Inr (page 200 (pathname (url rq))))"

text \<open>A storage where a store created before the active one holds another entry for
  the same request, one where the older store holds entries for other requests only,
  and a storage with a stale store only.\<close>

definition stale_first :: cache_storage where
  "stale_first =
     [(''atc-v0'', [(get_request ''/app.js'', page 200 ''old'')]),
      (''atc-v1'', [(get_request ''/app.js'', page 200 ''new'')])]"


definition stale_only :: cache_storage where
  "stale_only = [(''atc-v0'', [(get_request ''/app.js'', page 200 ''old'')])]"

section \<open>Facts about the host's caches\<close>

subsection \<open>Facts about one cache\<close>

lemma query_cache_append:
  "query_cache (c @ d) q = query_cache c q @ query_cache d q"
  by (simp add: query_cache_def)

lemma query_cache_removed:
  "query_cache (filter (\<lambda>(rq', rs'). \<not> request_matches q rq') c) q = []"
  by (induction c) (auto simp: query_cache_def)

lemma query_cache_kept:
  assumes "\<not> request_matches rq q"
  shows "query_cache (filter (\<lambda>(rq', rs'). \<not> request_matches rq rq') c) q = query_cache c q"
  using assms by (induction c) (auto simp: query_cache_def request_matches_def)

lemma cache_match_put_new:
  assumes "req_method rq = ''GET''"
  shows "cache_match (filter (\<lambda>(rq', rs'). \<not> request_matches rq rq') c @ [(rq, rs)]) rq = Some rs"
  using assms
  by (simp add: cache_match_def query_cache_append query_cache_removed)
     (simp add: query_cache_def request_matches_def)

lemma cache_match_put_other:
  assumes "\<not> request_matches rq q" and "cache_match c q = Some v"
  shows "cache_match (filter (\<lambda>(rq', rs'). \<not> request_matches rq rq') c @ [(rq, rs)]) q = Some v"
  using assms
  by (auto simp: cache_match_def query_cache_append query_cache_kept split: list.splits)

lemma query_cache_empty_iff:
  "query_cache c q = [] \<longleftrightarrow> (\<forall>(rq, rs) \<in> set c. \<not> request_matches q rq)"
  by (auto simp: query_cache_def filter_empty_conv)

text \<open>A batch that succeeds leaves, for every item of the batch, the item's response as
  the match of the item's request.\<close>

lemma batch_put_sound:
  assumes "batch_put ops added c = Inr c'"
    and "\<forall>(rq, rs) \<in> set added. cache_match c rq = Some rs"
  shows "\<forall>(rq, rs) \<in> set (added @ ops). cache_match c' rq = Some rs"
  using assms
proof (induction ops arbitrary: added c)
  case Nil
  then show ?case by simp
next
  case (Cons op ops)
  obtain rq rs where op: "op = (rq, rs)" by (cases op)
  let ?c = "filter (\<lambda>(rq', rs'). \<not> request_matches rq rq') c @ [(rq, rs)]"
  from Cons.prems(1) op have fresh: "query_cache added rq = []"
    and get: "req_method rq = ''GET''"
    and rest: "batch_put ops (added @ [(rq, rs)]) ?c = Inr c'"
    by (auto split: if_splits)
  have "\<forall>(a, v) \<in> set (added @ [(rq, rs)]). cache_match ?c a = Some v"
  proof (clarify)
    fix a v assume "(a, v) \<in> set (added @ [(rq, rs)])"
    then consider "(a, v) \<in> set added" | "a = rq" "v = rs" by auto
    then show "cache_match ?c a = Some v"
    proof cases
      case 1
      with fresh have "\<not> request_matches rq a"
        by (auto simp: query_cache_empty_iff)
      moreover from 1 Cons.prems(2) have "cache_match c a = Some v" by auto
      ultimately show ?thesis by (rule cache_match_put_other)
    next
      case 2
      with get show ?thesis by (simp add: cache_match_put_new)
    qed
  qed
  from Cons.IH [OF rest this] op show ?case by simp
qed

lemma batch_put_fresh:
  "batch_put ops [] c = Inr c' \<Longrightarrow> (rq, rs) \<in> set ops \<Longrightarrow> cache_match c' rq = Some rs"
  using batch_put_sound [of ops "[]" c c'] by auto

text \<open>What a successful round of fetches holds, and why a round fails.\<close>

lemma fetch_all_sound:
  "fetch_all net rqs = Inr ops \<Longrightarrow>
   map fst ops = rqs \<and>
   (\<forall>(rq, rs) \<in> set ops. net rq = Inr rs \<and> ok rs \<and> status rs \<noteq> 206 \<and> \<not> vary_star rs)"
proof (induction rqs arbitrary: ops)
  case Nil
  then show ?case by simp
next
  case (Cons rq rqs)
  then show ?case
    by (auto split: if_splits sum.splits)
qed

lemma fetch_all_error: "fetch_all net rqs = Inl e \<Longrightarrow> e = TypeError"
  by (induction rqs) (auto split: if_splits sum.splits)

lemma fetch_all_needs_each:
  assumes "rq \<in> set rqs"
    and "net rq = Inl e \<or> (\<exists>r. net rq = Inr r \<and> \<not> ok r)"
  shows "fetch_all net rqs = Inl TypeError"
proof (cases "fetch_all net rqs")
  case (Inl e')
  then show ?thesis using fetch_all_error by blast
next
  case (Inr ops)
  from fetch_all_sound [OF Inr] assms(1) have "rq \<in> fst ` set ops"
    by auto
  then obtain rs where "(rq, rs) \<in> set ops"
    by force
  with fetch_all_sound [OF Inr] have "net rq = Inr rs \<and> ok rs" by auto
  with assms(2) show ?thesis by auto
qed

subsection \<open>Facts about named caches\<close>

lemma caches_open_has: "name \<in> set (caches_keys (caches_open name cs))"
  by (simp add: caches_open_def caches_keys_def)

lemma keys_caches_store: "caches_keys (caches_store name c cs) = caches_keys cs"
  by (induction cs) (auto simp: caches_store_def caches_keys_def)

lemma cache_of_caches_store:
  "name \<in> set (caches_keys cs) \<Longrightarrow> cache_of (caches_store name c cs) name = c"
  by (induction cs) (auto simp: caches_store_def caches_keys_def cache_of_def)

lemma caches_match_open:
  "caches_match (caches_open name cs) q = caches_match cs q"
proof -
  have "caches_match (cs @ [(name, [])]) q = caches_match cs q"
    by (induction cs) (auto simp: cache_match_def query_cache_def split: option.splits)
  then show ?thesis by (simp add: caches_open_def)
qed

lemma caches_store_Cons:
  "caches_store name c ((k, old) # cs) =
     (if k = name then (k, c) else (k, old)) # caches_store name c cs"
  by (simp add: caches_store_def)

lemma caches_keys_Cons: "caches_keys ((k, old) # cs) = k # caches_keys cs"
  by (simp add: caches_keys_def)

lemma caches_match_store:
  assumes "caches_match cs q = None" and "name \<in> set (caches_keys cs)"
    and "cache_match c q = Some r"
  shows "caches_match (caches_store name c cs) q = Some r"
  using assms
proof (induction cs)
  case Nil
  then show ?case by (simp add: caches_keys_def)
next
  case (Cons kc cs)
  obtain k old where kc: "kc = (k, old)" by (cases kc)
  from Cons.prems(1) kc have miss: "cache_match old q = None" "caches_match cs q = None"
    by (simp_all split: option.splits)
  show ?case
  proof (cases "k = name")
    case True
    with Cons.prems(3) show ?thesis
      unfolding kc caches_store_Cons by simp
  next
    case False
    with Cons.prems(2) kc have "name \<in> set (caches_keys cs)"
      by (simp add: caches_keys_Cons)
    from Cons.IH [OF miss(2) this Cons.prems(3)] miss(1) False show ?thesis
      unfolding kc caches_store_Cons by simp
  qed
qed

subsection \<open>Facts about deleting caches\<close>






subsection \<open>Facts about the background write\<close>

lemma cache_put_accepted:
  assumes "http_scheme rq" and "req_method rq = ''GET''" and "status r \<noteq> 206"
    and "\<not> vary_star r"
  shows "\<exists>c'. cache_put c rq r = Inr c' \<and> cache_match c' rq = Some r"
proof -
  from assms have "query_cache [] rq = []" by (simp add: query_cache_def)
  with assms have p: "cache_put c rq r =
      Inr (filter (\<lambda>(rq', rs'). \<not> request_matches rq rq') c @ [(rq, r)])"
    by (simp add: cache_put_def)
  with assms(2) show ?thesis by (simp add: cache_match_put_new)
qed

lemma run_task_stores:
  assumes "http_scheme rq" and "req_method rq = ''GET''" and "status r \<noteq> 206"
    and "\<not> vary_star r"
  shows "cache_match (cache_of (run_task (OpenPut name rq r) cs) name) rq = Some r"
    and "caches_match cs rq = None \<Longrightarrow> caches_match (run_task (OpenPut name rq r) cs) rq = Some r"
proof -
  from cache_put_accepted [OF assms] obtain c' where
    p: "cache_put (cache_of (caches_open name cs) name) rq r = Inr c'"
    and m: "cache_match c' rq = Some r"
    by blast
  from p have t: "run_task (OpenPut name rq r) cs = caches_store name c' (caches_open name cs)"
    by (simp add: Let_def)
  show "cache_match (cache_of (run_task (OpenPut name rq r) cs) name) rq = Some r"
    unfolding t by (simp add: cache_of_caches_store caches_open_has m)
  assume "caches_match cs rq = None"
  then have "caches_match (caches_open name cs) rq = None"
    by (simp add: caches_match_open)
  then show "caches_match (run_task (OpenPut name rq r) cs) rq = Some r"
    unfolding t using caches_open_has m by (rule caches_match_store)
qed

section \<open>Install\<close>

lemma install_success:
  assumes "waited (install net base cs) = Inr ()"
  obtains ops c' where "fetch_all net (map (asset_request base) ASSETS) = Inr ops"
    and "batch_put ops [] (cache_of (caches_open CACHE_NAME cs) CACHE_NAME) = Inr c'"
    and "caches_after (install net base cs) = caches_store CACHE_NAME c' (caches_open CACHE_NAME cs)"
  using assms
  by (auto simp: install_def cache_addAll_def Let_def split: sum.splits)

lemma install_failure:
  assumes "fetch_all net (map (asset_request base) ASSETS) = Inl e"
  shows "install net base cs =
           \<lparr>waited = Inl e, signalled = True, caches_after = caches_open CACHE_NAME cs\<rparr>"
  using assms by (simp add: install_def cache_addAll_def Let_def)

lemma install_stores_each:
  assumes succ: "waited (install net base cs) = Inr ()" and p: "p \<in> set ASSETS"
  shows "\<exists>r. net (asset_request base p) = Inr r \<and> ok r
           \<and> cache_match (cache_of (caches_after (install net base cs)) CACHE_NAME)
                (asset_request base p) = Some r"
proof -
  from succ obtain ops c' where
    f: "fetch_all net (map (asset_request base) ASSETS) = Inr ops"
    and b: "batch_put ops [] (cache_of (caches_open CACHE_NAME cs) CACHE_NAME) = Inr c'"
    and a: "caches_after (install net base cs) = caches_store CACHE_NAME c' (caches_open CACHE_NAME cs)"
    by (rule install_success)
  from fetch_all_sound [OF f] p have "asset_request base p \<in> fst ` set ops"
    by (metis image_eqI list.set_map)
  then obtain r where r: "(asset_request base p, r) \<in> set ops" by force
  with fetch_all_sound [OF f] have "net (asset_request base p) = Inr r" "ok r" by auto
  moreover from batch_put_fresh [OF b r] a
  have "cache_match (cache_of (caches_after (install net base cs)) CACHE_NAME)
          (asset_request base p) = Some r"
    by (simp add: cache_of_caches_store caches_open_has)
  ultimately show ?thesis by blast
qed

lemmas eval_defs = install_def cache_addAll_def ASSETS_def asset_request_def net_up_def ok_def
  page_def vary_star_def vary_values_def header_values_def ascii_lower_def http_scheme_def
  site_def query_cache_def request_matches_def caches_open_def caches_keys_def cache_of_def
  caches_store_def CACHE_NAME_def cache_match_def get_request_def

lemma install_up:
  "install net_up site [] =
     \<lparr>waited = Inr (), signalled = True,
      caches_after =
        [(''atc-v1'',
          [(get_request ''/'', page 200 ''/''),
           (get_request ''/index.html'', page 200 ''/index.html''),
           (get_request ''/manifest.json'', page 200 ''/manifest.json''),
           (get_request ''/icons/icon-192.png'', page 200 ''/icons/icon-192.png''),
           (get_request ''/icons/icon-512.png'', page 200 ''/icons/icon-512.png'')])]\<rparr>"
  by (simp add: eval_defs)

text \<open>
  Claim C4. When the install succeeds (the promise given to \<^verbatim>\<open>waitUntil\<close> fulfils),
  the store named \<^verbatim>\<open>CACHE_NAME\<close> exists and holds, for every URL of \<^verbatim>\<open>ASSETS\<close>, an
  entry equal to the response the network gave for that URL during the install.
\<close>

theorem install_populates_active_store:
  assumes "waited (install net base cs) = Inr ()" and "p \<in> set ASSETS"
  shows "CACHE_NAME \<in> set (caches_keys (caches_after (install net base cs)))
       \<and> (\<exists>r. net (asset_request base p) = Inr r
             \<and> cache_match (cache_of (caches_after (install net base cs)) CACHE_NAME)
                  (asset_request base p) = Some r)"
proof -
  from assms(1) obtain ops c' where
    "caches_after (install net base cs) = caches_store CACHE_NAME c' (caches_open CACHE_NAME cs)"
    by (rule install_success)
  then have "CACHE_NAME \<in> set (caches_keys (caches_after (install net base cs)))"
    by (simp add: keys_caches_store caches_open_has)
  with install_stores_each [OF assms] show ?thesis by blast
qed

theorem install_populates_active_store_witness:
  "waited (install net_up site []) = Inr ()
   \<and> ''/index.html'' \<in> set ASSETS
   \<and> cache_match (cache_of (caches_after (install net_up site [])) CACHE_NAME)
        (asset_request site ''/index.html'') = Some (page 200 ''/index.html'')"
proof -
  have h1: "waited (install net_up site []) = Inr ()"
    by (simp add: install_up)
  have h2: "''/index.html'' \<in> set ASSETS"
    by (simp add: ASSETS_def)
  have n: "net_up (asset_request site ''/index.html'') = Inr (page 200 ''/index.html'')"
    by (simp add: net_up_def asset_request_def)
  show ?thesis
    using install_populates_active_store [OF h1 h2] h1 h2 n by auto
qed

text \<open>
  Claim C5. When the fetch of one manifest URL fails (it rejects, or answers with a
  status outside 200..299), the install as a whole fails: the promise given to
  \<^verbatim>\<open>waitUntil\<close> rejects, no entry is written, and the host leaves the registration
  as it was, so the new version does not become active and the version active before
  keeps serving. The install succeeds only when every manifest URL was fetched and its
  response stored, and the registration changes only when the install succeeded.
\<close>

theorem install_all_or_nothing:
  "(p \<in> set ASSETS
      \<and> (net (asset_request base p) = Inl e
           \<or> (\<exists>r. net (asset_request base p) = Inr r \<and> \<not> ok r)) \<longrightarrow>
      waited (install net base cs) = Inl TypeError
      \<and> caches_after (install net base cs) = caches_open CACHE_NAME cs
      \<and> host_update net base new reg cs = (reg, caches_open CACHE_NAME cs))
   \<and> (waited (install net base cs) = Inr () \<longrightarrow>
      list_all (\<lambda>p. \<exists>r. net (asset_request base p) = Inr r \<and> ok r
                  \<and> cache_match (cache_of (caches_after (install net base cs)) CACHE_NAME)
                       (asset_request base p) = Some r) ASSETS)
   \<and> (fst (host_update net base new reg cs) \<noteq> reg \<longrightarrow>
      waited (install net base cs) = Inr ())"
proof (intro conjI impI)
  assume bad: "p \<in> set ASSETS
      \<and> (net (asset_request base p) = Inl e
           \<or> (\<exists>r. net (asset_request base p) = Inr r \<and> \<not> ok r))"
  then have "asset_request base p \<in> set (map (asset_request base) ASSETS)"
    by simp
  with bad have "fetch_all net (map (asset_request base) ASSETS) = Inl TypeError"
    by (intro fetch_all_needs_each) auto
  then have i: "install net base cs =
      \<lparr>waited = Inl TypeError, signalled = True, caches_after = caches_open CACHE_NAME cs\<rparr>"
    by (rule install_failure)
  show "waited (install net base cs) = Inl TypeError"
    by (simp add: i)
  show "caches_after (install net base cs) = caches_open CACHE_NAME cs"
    by (simp add: i)
  show "host_update net base new reg cs = (reg, caches_open CACHE_NAME cs)"
    by (simp add: host_update_def i)
next
  assume "waited (install net base cs) = Inr ()"
  then show "list_all (\<lambda>p. \<exists>r. net (asset_request base p) = Inr r \<and> ok r
                  \<and> cache_match (cache_of (caches_after (install net base cs)) CACHE_NAME)
                       (asset_request base p) = Some r) ASSETS"
    unfolding list_all_iff using install_stores_each by blast
next
  assume "fst (host_update net base new reg cs) \<noteq> reg"
  then show "waited (install net base cs) = Inr ()"
    by (auto simp: host_update_def Let_def split: sum.splits)
qed

theorem install_all_or_nothing_witness:
  "''/icons/icon-192.png'' \<in> set ASSETS
   \<and> net_no_icons (asset_request site ''/icons/icon-192.png'') = Inl TypeError
   \<and> waited (install net_no_icons site stale_only) = Inl TypeError
   \<and> host_update net_no_icons site ''atc-v1'' \<lparr>active = Some ''atc-v0'', waiting = None\<rparr>
        stale_only
       = (\<lparr>active = Some ''atc-v0'', waiting = None\<rparr>, stale_only @ [(''atc-v1'', [])])
   \<and> waited (install net_up site []) = Inr ()
   \<and> list_all (\<lambda>p. \<exists>r. net_up (asset_request site p) = Inr r \<and> ok r
                 \<and> cache_match (cache_of (caches_after (install net_up site [])) CACHE_NAME)
                      (asset_request site p) = Some r) ASSETS"
proof -
  have h1: "''/icons/icon-192.png'' \<in> set ASSETS"
    by (simp add: ASSETS_def)
  have h2: "net_no_icons (asset_request site ''/icons/icon-192.png'') = Inl TypeError"
    by (simp add: net_no_icons_def asset_request_def)
  have h3: "waited (install net_up site []) = Inr ()"
    by (simp add: install_up)
  have o: "caches_open CACHE_NAME stale_only = stale_only @ [(''atc-v1'', [])]"
    by (simp add: caches_open_def caches_keys_def stale_only_def CACHE_NAME_def)
  show ?thesis
    using install_all_or_nothing [of "''/icons/icon-192.png''" net_no_icons site TypeError
        stale_only "''atc-v1''" "\<lparr>active = Some ''atc-v0'', waiting = None\<rparr>"]
      install_all_or_nothing [of p net_up site e "[]" "''atc-v1''" reg]
      h1 h2 h3 o
    by simp
qed

section \<open>Activate\<close>





section \<open>The API branch\<close>

lemma offline_response_value:
  \<open>offline_response =
     \<lparr>status = 200, statusText = [],
      headers = [(''Content-Type'', ''application/json'')],
      body = ''{"error":"You appear to be offline."}''\<rparr>\<close>
  by (simp add: offline_response_def new_Response_def JSON_stringify_def json_quote_def
      json_quote_char_def header_values_def ascii_lower_def)

text \<open>
  Claim C1. For a request whose pathname starts with \<^verbatim>\<open>/api/\<close>: when the network
  call rejects, the listener answers with the synthetic response (status 200, the header
  \<^verbatim>\<open>Content-Type: application/json\<close>, the body
  \<^verbatim>\<open>{"error":"You appear to be offline."}\<close>) and the rejection never reaches the
  caller; when the network call fulfils with a response of any status, that response is
  the answer, unchanged.
\<close>

theorem api_offline_fallback:
  assumes "startsWith (pathname (url rq)) ''/api/''"
  shows \<open>(\<forall>e. net rq = Inl e \<longrightarrow>
            responded (fetch_listener net cs rq) =
              Inr \<lparr>status = 200, statusText = [],
                   headers = [(''Content-Type'', ''application/json'')],
                   body = ''{"error":"You appear to be offline."}''\<rparr>)
       \<and> (\<forall>r. net rq = Inr r \<longrightarrow> responded (fetch_listener net cs rq) = Inr r)
       \<and> (\<forall>e. responded (fetch_listener net cs rq) \<noteq> Inl e)
       \<and> ok offline_response\<close>
  using assms
  by (auto simp: fetch_listener_def offline_response_value ok_def split: sum.splits)

theorem api_offline_fallback_witness:
  \<open>startsWith (pathname (url (get_request ''/api/status''))) ''/api/''
   \<and> responded (fetch_listener net_down [] (get_request ''/api/status'')) =
       Inr \<lparr>status = 200, statusText = [],
            headers = [(''Content-Type'', ''application/json'')],
            body = ''{"error":"You appear to be offline."}''\<rparr>
   \<and> responded (fetch_listener net_broken [] (post_request ''/api/ask'')) =
       Inr (page 500 ''Internal Server Error'')\<close>
proof -
  have h1: "startsWith (pathname (url (get_request ''/api/status''))) ''/api/''"
    by (simp add: get_request_def site_def)
  have h2: "startsWith (pathname (url (post_request ''/api/ask''))) ''/api/''"
    by (simp add: post_request_def site_def)
  show ?thesis
    using api_offline_fallback [OF h1, of net_down "[]"]
      api_offline_fallback [OF h2, of net_broken "[]"] h1
    by (simp add: net_down_def net_broken_def)
qed

text \<open>
  Claim C10. Handling a request whose pathname starts with \<^verbatim>\<open>/api/\<close> starts no
  cache write, whatever the method and whatever the network does: the cache storage is
  the same after the request as before.
\<close>

theorem api_branch_leaves_caches:
  assumes "startsWith (pathname (url rq)) ''/api/''"
  shows "background (fetch_listener net cs rq) = []
       \<and> settle (background (fetch_listener net cs rq)) cs = cs"
  using assms by (simp add: fetch_listener_def settle_def)

theorem api_branch_leaves_caches_witness:
  "startsWith (pathname (url (get_request ''/api/status''))) ''/api/''
   \<and> background (fetch_listener net_up stale_first (get_request ''/api/status'')) = []
   \<and> settle (background (fetch_listener net_up stale_first (get_request ''/api/status'')))
        stale_first = stale_first
   \<and> settle (background (fetch_listener net_down stale_only (get_request ''/api/status'')))
        stale_only = stale_only"
proof -
  have h1: "startsWith (pathname (url (get_request ''/api/status''))) ''/api/''"
    by (simp add: get_request_def site_def)
  show ?thesis
    using api_branch_leaves_caches [OF h1, of net_up stale_first]
      api_branch_leaves_caches [OF h1, of net_down stale_only] h1
    by blast
qed

section \<open>The static-asset branch\<close>





text \<open>
  Claim C7. For a request outside the API prefix with no entry in any store and a
  method other than GET, a network call that fulfils gives its response to the caller,
  and no cache write is started: the storage stays as it was.
\<close>

theorem non_get_miss_not_stored:
  assumes "\<not> startsWith (pathname (url rq)) ''/api/''"
    and "caches_match cs rq = None"
    and "req_method rq \<noteq> ''GET''"
    and "net rq = Inr r"
  shows "responded (fetch_listener net cs rq) = Inr r
       \<and> background (fetch_listener net cs rq) = []
       \<and> settle (background (fetch_listener net cs rq)) cs = cs"
  using assms by (simp add: fetch_listener_def settle_def)

theorem non_get_miss_not_stored_witness:
  "\<not> startsWith (pathname (url (post_request ''/app.js''))) ''/api/''
   \<and> caches_match stale_first (post_request ''/app.js'') = None
   \<and> req_method (post_request ''/app.js'') \<noteq> ''GET''
   \<and> responded (fetch_listener net_up stale_first (post_request ''/app.js''))
       = Inr (page 200 ''/app.js'')
   \<and> settle (background (fetch_listener net_up stale_first (post_request ''/app.js'')))
        stale_first = stale_first"
proof -
  have h1: "\<not> startsWith (pathname (url (post_request ''/app.js''))) ''/api/''"
    by (simp add: post_request_def site_def)
  have h2: "caches_match stale_first (post_request ''/app.js'') = None"
    by (simp add: stale_first_def cache_match_def query_cache_def request_matches_def
        post_request_def)
  have h3: "req_method (post_request ''/app.js'') \<noteq> ''GET''"
    by (simp add: post_request_def)
  have h4: "net_up (post_request ''/app.js'') = Inr (page 200 ''/app.js'')"
    by (simp add: net_up_def post_request_def site_def)
  show ?thesis
    using non_get_miss_not_stored [where net=net_up, OF h1 h2 h3 h4] h1 h2 h3 by blast
qed

text \<open>
  Claim C8. For a request outside the API prefix with no entry in any store, a network
  call that rejects makes the listener's answer reject with the same error: no
  substitute response, no second attempt, no cache write.
\<close>

theorem static_miss_network_failure:
  assumes "\<not> startsWith (pathname (url rq)) ''/api/''"
    and "caches_match cs rq = None"
    and "net rq = Inl e"
  shows "responded (fetch_listener net cs rq) = Inl e
       \<and> net_calls (fetch_listener net cs rq) = [rq]
       \<and> background (fetch_listener net cs rq) = []"
  using assms by (simp add: fetch_listener_def)

theorem static_miss_network_failure_witness:
  "\<not> startsWith (pathname (url (get_request ''/logo.png''))) ''/api/''
   \<and> caches_match stale_first (get_request ''/logo.png'') = None
   \<and> net_down (get_request ''/logo.png'') = Inl TypeError
   \<and> responded (fetch_listener net_down stale_first (get_request ''/logo.png''))
       = Inl TypeError"
proof -
  have h1: "\<not> startsWith (pathname (url (get_request ''/logo.png''))) ''/api/''"
    by (simp add: get_request_def site_def)
  have h2: "caches_match stale_first (get_request ''/logo.png'') = None"
    by (simp add: stale_first_def cache_match_def query_cache_def request_matches_def
        get_request_def site_def)
  have h3: "net_down (get_request ''/logo.png'') = Inl TypeError"
    by (simp add: net_down_def)
  show ?thesis
    using static_miss_network_failure [where net=net_down, OF h1 h2 h3] h1 h2 h3 by simp
qed

text \<open>
  Claim C3, as amended. For a GET request outside the API prefix with no entry in any
  store, when the network call fulfils with a status in 200..299 the caller gets that
  very response, and the write to the active store is left running in the background:
  the answer does not wait for it and is the same whether the cache accepts the write
  or not. When the cache accepts it (the URL is http or https, the status is not 206,
  the response does not vary on \<^verbatim>\<open>*\<close>), the active store holds afterwards an entry
  for the request equal to that response, and a later lookup finds it.
\<close>

theorem static_miss_populates:
  assumes "\<not> startsWith (pathname (url rq)) ''/api/''"
    and "req_method rq = ''GET''"
    and "caches_match cs rq = None"
    and "net rq = Inr r"
    and "ok r"
  shows "responded (fetch_listener net cs rq) = Inr r
       \<and> net_calls (fetch_listener net cs rq) = [rq]
       \<and> background (fetch_listener net cs rq) = [OpenPut CACHE_NAME rq r]
       \<and> (http_scheme rq \<and> status r \<noteq> 206 \<and> \<not> vary_star r \<longrightarrow>
            cache_match (cache_of (settle (background (fetch_listener net cs rq)) cs) CACHE_NAME) rq
              = Some r
            \<and> caches_match (settle (background (fetch_listener net cs rq)) cs) rq = Some r)"
proof -
  have l: "fetch_listener net cs rq =
      \<lparr>responded = Inr r, net_calls = [rq], background = [OpenPut CACHE_NAME rq r]\<rparr>"
    using assms by (simp add: fetch_listener_def)
  have s: "settle [OpenPut CACHE_NAME rq r] cs = run_task (OpenPut CACHE_NAME rq r) cs"
    by (simp add: settle_def)
  have st: "cache_match (cache_of (settle [OpenPut CACHE_NAME rq r] cs) CACHE_NAME) rq = Some r
      \<and> caches_match (settle [OpenPut CACHE_NAME rq r] cs) rq = Some r"
    if "http_scheme rq" and "status r \<noteq> 206" and "\<not> vary_star r"
    unfolding s
    using run_task_stores [where rq=rq and r=r and name=CACHE_NAME and cs=cs] assms(2,3) that
    by blast
  show ?thesis
    unfolding l using st by simp
qed

theorem static_miss_populates_witness:
  "\<not> startsWith (pathname (url (get_request ''/app.css''))) ''/api/''
   \<and> caches_match stale_only (get_request ''/app.css'') = None
   \<and> net_up (get_request ''/app.css'') = Inr (page 200 ''/app.css'')
   \<and> ok (page 200 ''/app.css'')
   \<and> http_scheme (get_request ''/app.css'') \<and> \<not> vary_star (page 200 ''/app.css'')
   \<and> responded (fetch_listener net_up stale_only (get_request ''/app.css''))
       = Inr (page 200 ''/app.css'')
   \<and> cache_match
        (cache_of (settle (background (fetch_listener net_up stale_only (get_request ''/app.css'')))
           stale_only) CACHE_NAME) (get_request ''/app.css'')
       = Some (page 200 ''/app.css'')"
proof -
  have h1: "\<not> startsWith (pathname (url (get_request ''/app.css''))) ''/api/''"
    by (simp add: get_request_def site_def)
  have h2: "req_method (get_request ''/app.css'') = ''GET''"
    by (simp add: get_request_def)
  have h3: "caches_match stale_only (get_request ''/app.css'') = None"
    by (simp add: stale_only_def cache_match_def query_cache_def request_matches_def
        get_request_def site_def)
  have h4: "net_up (get_request ''/app.css'') = Inr (page 200 ''/app.css'')"
    by (simp add: net_up_def get_request_def site_def)
  have h5: "ok (page 200 ''/app.css'')"
    by (simp add: ok_def page_def)
  have h6: "http_scheme (get_request ''/app.css'')"
    by (simp add: http_scheme_def get_request_def site_def)
  have h7: "status (page 200 ''/app.css'') \<noteq> 206"
    by (simp add: page_def)
  have h8: "\<not> vary_star (page 200 ''/app.css'')"
    by (simp add: vary_star_def vary_values_def header_values_def page_def ascii_lower_def)
  show ?thesis
    using static_miss_populates [where net=net_up, OF h1 h2 h3 h4 h5] h1 h3 h4 h5 h6 h7 h8
    by blast
qed

text \<open>
  The claim C3 as first stated fails for a response of status 206: it counts as a
  success (\<^verbatim>\<open>response.ok\<close>), the caller gets it, but the cache rejects the write and
  the store holds no entry for the request afterwards.
\<close>

theorem partial_content_not_stored_counterexample:
  "\<not> startsWith (pathname (url (get_request ''/intro.mp4''))) ''/api/''
   \<and> req_method (get_request ''/intro.mp4'') = ''GET''
   \<and> caches_match [(CACHE_NAME, [])] (get_request ''/intro.mp4'') = None
   \<and> net_partial (get_request ''/intro.mp4'') = Inr (page 206 ''/intro.mp4'')
   \<and> ok (page 206 ''/intro.mp4'')
   \<and> responded (fetch_listener net_partial [(CACHE_NAME, [])] (get_request ''/intro.mp4''))
       = Inr (page 206 ''/intro.mp4'')
   \<and> settle (background (fetch_listener net_partial [(CACHE_NAME, [])] (get_request ''/intro.mp4'')))
        [(CACHE_NAME, [])] = [(CACHE_NAME, [])]
   \<and> cache_match
        (cache_of (settle (background
           (fetch_listener net_partial [(CACHE_NAME, [])] (get_request ''/intro.mp4'')))
           [(CACHE_NAME, [])]) CACHE_NAME) (get_request ''/intro.mp4'')
       = None"
  by (simp add: fetch_listener_def settle_def cache_put_def cache_match_def query_cache_def
      net_partial_def get_request_def site_def page_def ok_def caches_open_def caches_keys_def
      cache_of_def http_scheme_def)

section \<open>Routing\<close>

text \<open>
  Claim C9. The branch is chosen by one test, whether the pathname starts with
  \<^verbatim>\<open>/api/\<close>. A pathname with the prefix always goes to the network and never
  rejects; any other pathname, among them \<^verbatim>\<open>/api\<close> itself and every pathname that
  starts with \<^verbatim>\<open>/api\<close> but not with \<^verbatim>\<open>/api/\<close> (such as \<^verbatim>\<open>/apidocs\<close>), is served
  cache first: a stored entry is the answer without a network call, and on a miss the
  answer is whatever the network call settles with.
\<close>

theorem routing_by_api_prefix:
  "(startsWith (pathname (url rq)) ''/api/'' \<longrightarrow>
      net_calls (fetch_listener net cs rq) = [rq]
      \<and> responded (fetch_listener net cs rq) =
          (case net rq of Inl e \<Rightarrow> Inr offline_response | Inr r \<Rightarrow> Inr r))
   \<and> (\<not> startsWith (pathname (url rq)) ''/api/'' \<longrightarrow>
      (\<forall>c. caches_match cs rq = Some c \<longrightarrow>
         responded (fetch_listener net cs rq) = Inr c
         \<and> net_calls (fetch_listener net cs rq) = [])
      \<and> (caches_match cs rq = None \<longrightarrow>
         responded (fetch_listener net cs rq) = net rq
         \<and> net_calls (fetch_listener net cs rq) = [rq]))
   \<and> \<not> startsWith ''/api'' ''/api/''
   \<and> (startsWith p ''/api'' \<and> \<not> startsWith p ''/api/''
        \<and> pathname (url rq) = p \<and> caches_match cs rq = Some c' \<longrightarrow>
        responded (fetch_listener net cs rq) = Inr c'
        \<and> net_calls (fetch_listener net cs rq) = [])"
  by (auto simp: fetch_listener_def split: sum.splits option.splits)

theorem routing_by_api_prefix_witness:
  "startsWith (pathname (url (get_request ''/api/app.js''))) ''/api/''
   \<and> net_calls (fetch_listener net_up stale_only (get_request ''/api/app.js''))
       = [get_request ''/api/app.js'']
   \<and> startsWith ''/apidocs'' ''/api'' \<and> \<not> startsWith ''/apidocs'' ''/api/''
   \<and> responded (fetch_listener net_down
        [(CACHE_NAME, [(get_request ''/apidocs'', page 200 ''docs'')])]
        (get_request ''/apidocs'')) = Inr (page 200 ''docs'')
   \<and> responded (fetch_listener net_down
        [(CACHE_NAME, [(get_request ''/api'', page 200 ''root'')])]
        (get_request ''/api'')) = Inr (page 200 ''root'')
   \<and> net_calls (fetch_listener net_down
        [(CACHE_NAME, [(get_request ''/api'', page 200 ''root'')])]
        (get_request ''/api'')) = []"
proof -
  have h1: "startsWith (pathname (url (get_request ''/api/app.js''))) ''/api/''"
    by (simp add: get_request_def site_def)
  have h2: "startsWith ''/apidocs'' ''/api'' \<and> \<not> startsWith ''/apidocs'' ''/api/''"
    by simp
  have h3: "pathname (url (get_request ''/apidocs'')) = ''/apidocs''"
    by (simp add: get_request_def site_def)
  have h4: "caches_match [(CACHE_NAME, [(get_request ''/apidocs'', page 200 ''docs'')])]
      (get_request ''/apidocs'') = Some (page 200 ''docs'')"
    by (simp add: cache_match_def query_cache_def request_matches_def get_request_def)
  have h5: "startsWith ''/api'' ''/api'' \<and> \<not> startsWith ''/api'' ''/api/''"
    by simp
  have h6: "pathname (url (get_request ''/api'')) = ''/api''"
    by (simp add: get_request_def site_def)
  have h7: "caches_match [(CACHE_NAME, [(get_request ''/api'', page 200 ''root'')])]
      (get_request ''/api'') = Some (page 200 ''root'')"
    by (simp add: cache_match_def query_cache_def request_matches_def get_request_def)
  show ?thesis
    using routing_by_api_prefix [of "get_request ''/api/app.js''" net_up stale_only]
      routing_by_api_prefix [of "get_request ''/apidocs''" net_down
        "[(CACHE_NAME, [(get_request ''/apidocs'', page 200 ''docs'')])]" "''/apidocs''"
        "page 200 ''docs''"]
      routing_by_api_prefix [of "get_request ''/api''" net_down
        "[(CACHE_NAME, [(get_request ''/api'', page 200 ''root'')])]" "''/api''"
        "page 200 ''root''"]
      h1 h2 h3 h4 h5 h6 h7
    by simp
qed

end
